theory Spec2Isabelle
  imports Main
begin

section \<open>Block trees\<close>

text \<open>
  A block of the editor: its \<open>clientId\<close>, its block type \<open>name\<close>, its attributes (opaque
  here: only the overridable-classifier reads them) and its \<open>innerBlocks\<close>, in order.
\<close>

datatype 'a block =
  Block (clientId: string) (name: string) (attributes: 'a) (innerBlocks: "'a block list")

text \<open>
  Vocabulary for statements about a tree: every block of a forest in pre-order, and every
  block together with the list of its ancestors inside the forest, outermost first.
\<close>

fun allBlocks :: "'a block list \<Rightarrow> 'a block list"
and allBlocks_block :: "'a block \<Rightarrow> 'a block list" where
  "allBlocks [] = []"
| "allBlocks (b # bs) = allBlocks_block b @ allBlocks bs"
| "allBlocks_block (Block cid nm at inner) = Block cid nm at inner # allBlocks inner"

fun withAncestors :: "'a block list \<Rightarrow> ('a block list \<times> 'a block) list"
and withAncestors_block :: "'a block \<Rightarrow> ('a block list \<times> 'a block) list" where
  "withAncestors [] = []"
| "withAncestors (b # bs) = withAncestors_block b @ withAncestors bs"
| "withAncestors_block (Block cid nm at inner) =
     ([], Block cid nm at inner) #
     map (\<lambda>(anc, d). (Block cid nm at inner # anc, d)) (withAncestors inner)"

definition clientIds :: "'a block list \<Rightarrow> string list" where
  "clientIds blocks = map clientId (allBlocks blocks)"

text \<open>A block lies below a nested pattern when one of its ancestors has the pattern type.\<close>

definition belowPattern :: "string \<Rightarrow> 'a block list \<Rightarrow> bool" where
  "belowPattern patternBlockName anc = (patternBlockName \<in> set (map name anc))"

section \<open>Edit-mode propagation\<close>

text \<open>
  The argument \<open>mode\<close> of \<open>setBlockEditMode\<close> is a string or \<open>undefined\<close> (\<open>None\<close>).
  JavaScript's \<open>mode || d\<close> yields \<open>d\<close> when \<open>mode\<close> is \<open>undefined\<close> or the empty string,
  and \<open>mode\<close> otherwise.
\<close>

definition js_or :: "string option \<Rightarrow> string \<Rightarrow> string" where
  "js_or mode d = (case mode of None \<Rightarrow> d | Some m \<Rightarrow> if m = [] then d else m)"

text \<open>
  \<open>setBlockEditMode( setEditMode, blocks, mode )\<close>. The callback \<open>setEditMode\<close> acts on a
  state \<open>'s\<close> that is threaded through the calls in the order in which \<open>forEach\<close> makes them.
  The classifier \<open>isOverridableBlock\<close> and the constant \<open>patternBlockName\<close> are imported by
  the source from other modules and are parameters here. \<open>setBlockEditMode_forEach\<close> is the
  body of the arrow function handed to \<open>forEach\<close>.
\<close>

fun setBlockEditMode ::
  "(string \<Rightarrow> string \<Rightarrow> 's \<Rightarrow> 's) \<Rightarrow> ('a block \<Rightarrow> bool) \<Rightarrow> string \<Rightarrow>
   'a block list \<Rightarrow> string option \<Rightarrow> 's \<Rightarrow> 's"
and setBlockEditMode_forEach ::
  "(string \<Rightarrow> string \<Rightarrow> 's \<Rightarrow> 's) \<Rightarrow> ('a block \<Rightarrow> bool) \<Rightarrow> string \<Rightarrow>
   'a block \<Rightarrow> string option \<Rightarrow> 's \<Rightarrow> 's" where
  "setBlockEditMode setEditMode isOverridableBlock patternBlockName [] mode s = s"
| "setBlockEditMode setEditMode isOverridableBlock patternBlockName (b # bs) mode s =
     setBlockEditMode setEditMode isOverridableBlock patternBlockName bs mode
       (setBlockEditMode_forEach setEditMode isOverridableBlock patternBlockName b mode s)"
| "setBlockEditMode_forEach setEditMode isOverridableBlock patternBlockName
       (Block cid nm at inner) mode s =
     (let editMode =
        js_or mode
          (if isOverridableBlock (Block cid nm at inner) then ''contentOnly'' else ''disabled'')
      in setBlockEditMode setEditMode isOverridableBlock patternBlockName inner
           (if nm = patternBlockName then Some ''disabled'' else mode)
           (setEditMode cid editMode s))"

text \<open>
  Modelled from the spec: the edit-mode registry, which the source reaches through the
  store action \<open>setBlockEditingMode\<close> and which is not part of these files. It is a
  mapping from node id to edit mode that the propagator writes into.
\<close>

definition setBlockEditingMode ::
  "string \<Rightarrow> string \<Rightarrow> (string \<rightharpoonup> string) \<Rightarrow> (string \<rightharpoonup> string)" where
  "setBlockEditingMode cid mode registry = registry(cid \<mapsto> mode)"

text \<open>A callback that only records the calls made to it, in order.\<close>

definition recordCall ::
  "string \<Rightarrow> string \<Rightarrow> (string \<times> string) list \<Rightarrow> (string \<times> string) list" where
  "recordCall cid mode calls = calls @ [(cid, mode)]"

text \<open>
  The mode with which the traversal reaches a block whose ancestors, outermost first, are
  \<open>anc\<close>, and the edit mode written for that block.
\<close>

fun modeAt :: "string \<Rightarrow> string option \<Rightarrow> 'a block list \<Rightarrow> string option" where
  "modeAt patternBlockName mode [] = mode"
| "modeAt patternBlockName mode (a # anc) =
     modeAt patternBlockName (if name a = patternBlockName then Some ''disabled'' else mode) anc"

definition editModeAt ::
  "('a block \<Rightarrow> bool) \<Rightarrow> string \<Rightarrow> string option \<Rightarrow> 'a block list \<Rightarrow> 'a block \<Rightarrow> string" where
  "editModeAt isOverridableBlock patternBlockName mode anc b =
     js_or (modeAt patternBlockName mode anc)
       (if isOverridableBlock b then ''contentOnly'' else ''disabled'')"

subsection \<open>The effect that synchronises the pattern's inner blocks\<close>

text \<open>
  \<open>hasPatternOverridesSource\<close> is \<open>!! getBlockBindingsSource( 'core/pattern-overrides' )\<close>;
  the selector is a parameter and returns a source or \<open>undefined\<close> (\<open>None\<close>).
\<close>

definition hasPatternOverridesSource :: "(string \<Rightarrow> 'src option) \<Rightarrow> bool" where
  "hasPatternOverridesSource getBlockBindingsSource =
     (getBlockBindingsSource ''core/pattern-overrides'' \<noteq> None)"

text \<open>The third argument of the call in the effect.\<close>

definition syncMode :: "string \<Rightarrow> (string \<Rightarrow> 'src option) \<Rightarrow> string option" where
  "syncMode editingMode getBlockBindingsSource =
     (if editingMode = ''disabled'' \<or> \<not> hasPatternOverridesSource getBlockBindingsSource
      then Some ''disabled'' else None)"

definition syncEffect ::
  "(string \<Rightarrow> string \<Rightarrow> 's \<Rightarrow> 's) \<Rightarrow> ('a block \<Rightarrow> bool) \<Rightarrow> string \<Rightarrow>
   string \<Rightarrow> (string \<Rightarrow> 'src option) \<Rightarrow> 'a block list \<Rightarrow> 's \<Rightarrow> 's" where
  "syncEffect setEditMode isOverridableBlock patternBlockName editingMode
       getBlockBindingsSource innerBlocks' s =
     setBlockEditMode setEditMode isOverridableBlock patternBlockName innerBlocks'
       (syncMode editingMode getBlockBindingsSource) s"

section \<open>Rendering the pattern block\<close>

text \<open>
  What \<open>ReusableBlockEdit\<close> puts below the toolbars: either the \<open>div\<close> with the inner
  blocks, or a \<open>div\<close> holding \<open>children\<close>, which is a warning or the placeholder with the
  spinner. The toolbars are left out. The arguments are the values that the hooks give
  the component: \<open>hasResolved\<close> and \<open>record\<close> from \<open>useEntityRecord\<close>, \<open>innerBlocks\<close> from
  the selector \<open>getBlocks\<close> and \<open>blocks\<close> from \<open>useEntityBlockEditor\<close>; an absent record
  is \<open>None\<close>. The two \<open>if\<close> statements assign \<open>children\<close> one after the other.
\<close>

datatype children = Warning string | Placeholder_Spinner

datatype 'a element = InnerBlocksDiv "'a block list" | BlockDiv children

definition ReusableBlockEdit_children :: "bool \<Rightarrow> 'rec option \<Rightarrow> children option" where
  "ReusableBlockEdit_children hasResolved record' =
     (let isMissing = hasResolved \<and> record' = None;
          children0 = None;
          children1 =
            (if isMissing then Some (Warning ''Block has been deleted or is unavailable.'')
             else children0);
          children2 = (if \<not> hasResolved then Some Placeholder_Spinner else children1)
      in children2)"

definition ReusableBlockEdit ::
  "bool \<Rightarrow> 'rec option \<Rightarrow> 'a block list \<Rightarrow> 'a block list \<Rightarrow> 'a element" where
  "ReusableBlockEdit hasResolved record' innerBlocks' blocks =
     (case ReusableBlockEdit_children hasResolved record' of
        None \<Rightarrow> InnerBlocksDiv (if length innerBlocks' > 0 then innerBlocks' else blocks)
      | Some c \<Rightarrow> BlockDiv c)"

definition RecursionWarning :: "'a element" where
  "RecursionWarning = BlockDiv (Warning ''Block cannot be rendered inside itself.'')"

subsection \<open>The recursion guard\<close>

text \<open>
  The source imports \<open>useHasRecursion\<close> and \<open>RecursionProvider\<close> from the block-editor
  package, whose code is not part of these files. The render path is an ordered set of
  template identifiers, here a list.
\<close>

text \<open>
  Modelled from the spec: the query \<open>isActive\<close>, a read-only membership check on the
  render path.
\<close>

definition isActive :: "'r \<Rightarrow> 'r list \<Rightarrow> bool" where
  "isActive t path = (t \<in> set path)"

text \<open>
  Modelled from the spec: \<open>enter\<close> returns false and leaves the path as it is when the
  identifier is already present; otherwise it inserts the identifier and returns true.
\<close>

definition enter :: "'r \<Rightarrow> 'r list \<Rightarrow> bool \<times> 'r list" where
  "enter t path = (if t \<in> set path then (False, path) else (True, path @ [t]))"

text \<open>Modelled from the spec: \<open>exit\<close> removes the identifier from the render path.\<close>

definition exit :: "'r \<Rightarrow> 'r list \<Rightarrow> 'r list" where
  "exit t path = removeAll t path"

text \<open>
  Modelled from the spec: \<open>useHasRecursion( ref )\<close> is the query \<open>isActive\<close> on the path of
  the enclosing render.
\<close>

definition useHasRecursion :: "'r list \<Rightarrow> 'r \<Rightarrow> bool" where
  "useHasRecursion path uniqueId = isActive uniqueId path"

text \<open>
  Modelled from the spec: \<open>RecursionProvider\<close> renders what it wraps on the path that
  \<open>enter\<close> yields for its \<open>uniqueId\<close>; the path of the enclosing render is not changed.
\<close>

definition RecursionProvider :: "'r \<Rightarrow> 'r list \<Rightarrow> ('r list \<Rightarrow> 'v) \<Rightarrow> 'v" where
  "RecursionProvider uniqueId path child = child (snd (enter uniqueId path))"

text \<open>
  A render returns an element or throws. A throw is the value \<open>Inl\<close> of the result, an
  element the value \<open>Inr\<close>.
\<close>

datatype render_error = Thrown string

text \<open>
  \<open>ReusableBlockEditRecursionWrapper\<close>. The parameter \<open>edit\<close> stands for
  \<open>ReusableBlockEdit\<close> with everything the editor renders below it; it receives the path
  that the provider hands down, and it may throw. The wrapper has no \<open>throw\<close> of its own:
  its first branch returns the warning, its second branch yields whatever the wrapped
  component yields.
\<close>

definition ReusableBlockEditRecursionWrapper ::
  "('r list \<Rightarrow> 'r \<Rightarrow> render_error + 'a element) \<Rightarrow> 'r list \<Rightarrow> 'r \<Rightarrow>
   render_error + 'a element" where
  "ReusableBlockEditRecursionWrapper edit path ref =
     (let hasAlreadyRendered = useHasRecursion path ref
      in if hasAlreadyRendered then Inr RecursionWarning
         else RecursionProvider ref path (\<lambda>path'. edit path' ref))"

section \<open>Auxiliary facts\<close>

subsection \<open>The traversal as a fold over the blocks with their ancestors\<close>

lemma snd_withAncestors:
  "map snd (withAncestors (bs::'a block list)) = allBlocks bs"
  "map snd (withAncestors_block (b::'a block)) = allBlocks_block b"
  by (induction bs and b rule: withAncestors_withAncestors_block.induct)
     (simp_all add: comp_def case_prod_unfold)

lemma modeAt_belowPattern:
  "modeAt pn mode anc = (if belowPattern pn anc then Some ''disabled'' else mode)"
  by (induction anc arbitrary: mode) (auto simp: belowPattern_def)

lemma editModeAt_Cons:
  "editModeAt isOv pn mode (a # anc) b =
   editModeAt isOv pn (if name a = pn then Some ''disabled'' else mode) anc b"
  by (simp add: editModeAt_def)

lemma setBlockEditMode_fold:
  "setBlockEditMode f isOv pn bs mode s =
     fold (\<lambda>(anc, b). f (clientId b) (editModeAt isOv pn mode anc b)) (withAncestors bs) s"
  "setBlockEditMode_forEach f isOv pn b mode s =
     fold (\<lambda>(anc, b). f (clientId b) (editModeAt isOv pn mode anc b)) (withAncestors_block b) s"
proof (induction f isOv pn bs mode s and f isOv pn b mode s
       rule: setBlockEditMode_setBlockEditMode_forEach.induct)
  case (1 f isOv pn mode s)
  show ?case by simp
next
  case (2 f isOv pn b bs mode s)
  then show ?case by simp
next
  case (3 f isOv pn cid nm at inner mode s)
  show ?case
    by (simp add: 3 fold_map comp_def case_prod_unfold editModeAt_Cons)
       (simp add: editModeAt_def)
qed

lemma fold_update_notin:
  "k \<notin> fst ` set kvs \<Longrightarrow> fold (\<lambda>(k, v) r. r(k \<mapsto> v)) kvs r k = r k"
  by (induction kvs arbitrary: r) (auto simp: case_prod_unfold)

lemma fold_update_distinct:
  "distinct (map fst kvs) \<Longrightarrow> (k, v) \<in> set kvs \<Longrightarrow>
   fold (\<lambda>(k, v) r. r(k \<mapsto> v)) kvs r k = Some v"
proof (induction kvs arbitrary: r)
  case Nil
  then show ?case by simp
next
  case (Cons kv kvs)
  obtain k' v' where kv: "kv = (k', v')" by (cases kv)
  show ?case
  proof (cases "(k, v) \<in> set kvs")
    case True
    from Cons.prems(1) have "distinct (map fst kvs)" by simp
    from Cons.IH [OF this True] show ?thesis by (simp only: fold_simps o_apply)
  next
    case False
    with Cons.prems kv have eq: "k' = k" "v' = v" by auto
    from Cons.prems kv eq have notin: "k \<notin> fst ` set kvs" by simp
    have "fold (\<lambda>(k, v) r. r(k \<mapsto> v)) (kv # kvs) r k =
          fold (\<lambda>(k, v) r. r(k \<mapsto> v)) kvs (r(k \<mapsto> v)) k"
      by (simp add: kv eq)
    also have "\<dots> = (r(k \<mapsto> v)) k"
      by (rule fold_update_notin [OF notin])
    also have "\<dots> = Some v" by simp
    finally show ?thesis .
  qed
qed

lemma setBlockEditingMode_fun: "setBlockEditingMode c m = (\<lambda>r. r(c \<mapsto> m))"
  by (rule ext) (simp add: setBlockEditingMode_def)

lemma recordCall_fun: "recordCall c m = (\<lambda>cs. cs @ [(c, m)])"
  by (rule ext) (simp add: recordCall_def)

lemma registry_after:
  assumes "distinct (clientIds bs)" and "(anc, b) \<in> set (withAncestors bs)"
  shows "setBlockEditMode setBlockEditingMode isOv pn bs mode r (clientId b) =
         Some (editModeAt isOv pn mode anc b)"
proof -
  let ?kvs = "map (\<lambda>(anc, b). (clientId b, editModeAt isOv pn mode anc b)) (withAncestors bs)"
  have fst: "map fst ?kvs = clientIds bs"
    by (simp add: clientIds_def snd_withAncestors(1) [symmetric] comp_def case_prod_unfold)
  have "setBlockEditMode setBlockEditingMode isOv pn bs mode r =
        fold (\<lambda>(k, v) r. r(k \<mapsto> v)) ?kvs r"
    by (simp add: setBlockEditMode_fold(1) fold_map comp_def case_prod_unfold
          setBlockEditingMode_fun)
  moreover have "(clientId b, editModeAt isOv pn mode anc b) \<in> set ?kvs"
    using assms(2) by force
  ultimately show ?thesis
    using fold_update_distinct [of ?kvs] assms(1) fst by simp
qed

lemma fold_snoc_map: "fold (\<lambda>x cs. cs @ [g x]) xs cs = cs @ map g xs"
  by (induction xs arbitrary: cs) simp_all

lemma calls_eq:
  "setBlockEditMode recordCall isOv pn bs mode [] =
   map (\<lambda>(anc, b). (clientId b, editModeAt isOv pn mode anc b)) (withAncestors bs)"
  by (simp add: setBlockEditMode_fold(1) recordCall_fun case_prod_unfold fold_snoc_map)

lemma editModeAt_disabled: "editModeAt isOv pn (Some ''disabled'') anc b = ''disabled''"
  by (simp add: editModeAt_def modeAt_belowPattern js_or_def)

lemma editModeAt_None:
  "editModeAt isOv pn None anc b =
   (if isOv b \<and> \<not> belowPattern pn anc then ''contentOnly'' else ''disabled'')"
  by (simp add: editModeAt_def modeAt_belowPattern js_or_def)

lemma editModeAt_Some:
  "m \<noteq> [] \<Longrightarrow>
   editModeAt isOv pn (Some m) anc b = (if belowPattern pn anc then ''disabled'' else m)"
  by (simp add: editModeAt_def modeAt_belowPattern js_or_def)

lemma fold_update_const:
  "k \<in> fst ` set kvs \<Longrightarrow> snd ` set kvs \<subseteq> {v} \<Longrightarrow>
   fold (\<lambda>(k, v) r. r(k \<mapsto> v)) kvs r k = Some v"
proof (induction kvs arbitrary: r)
  case Nil
  then show ?case by simp
next
  case (Cons kv kvs)
  obtain k' where kv: "kv = (k', v)" using Cons.prems(2) by (cases kv) auto
  have step: "fold (\<lambda>(k, v) r. r(k \<mapsto> v)) (kv # kvs) r k =
              fold (\<lambda>(k, v) r. r(k \<mapsto> v)) kvs (r(k' \<mapsto> v)) k"
    by (simp add: kv)
  show ?case
  proof (cases "k \<in> fst ` set kvs")
    case True
    from Cons.prems(2) have "snd ` set kvs \<subseteq> {v}" by auto
    from Cons.IH [OF True this] step show ?thesis by (simp only:)
  next
    case False
    with Cons.prems(1) kv have k': "k' = k" by auto
    have "fold (\<lambda>(k, v) r. r(k \<mapsto> v)) kvs (r(k' \<mapsto> v)) k = (r(k' \<mapsto> v)) k"
      by (rule fold_update_notin [OF False])
    also have "\<dots> = Some v" by (simp add: k')
    finally show ?thesis using step by (simp only:)
  qed
qed

lemma withAncestors_inner:
  "(anc, b) \<in> set (withAncestors (bs::'a block list)) \<Longrightarrow>
   (anc', c) \<in> set (withAncestors (innerBlocks b)) \<Longrightarrow>
   (anc @ b # anc', c) \<in> set (withAncestors bs)"
  "(anc, b) \<in> set (withAncestors_block (x::'a block)) \<Longrightarrow>
   (anc', c) \<in> set (withAncestors (innerBlocks b)) \<Longrightarrow>
   (anc @ b # anc', c) \<in> set (withAncestors_block x)"
proof (induction bs and x arbitrary: anc and anc rule: withAncestors_withAncestors_block.induct)
  case 1
  then show ?case by simp
next
  case (2 b' bs)
  then show ?case by auto
next
  case (3 cid nm at inner)
  show ?case
  proof (cases "anc = [] \<and> b = Block cid nm at inner")
    case True
    with 3(3) show ?thesis by force
  next
    case False
    with 3(2) obtain anc0 where a: "anc = Block cid nm at inner # anc0"
      and m: "(anc0, b) \<in> set (withAncestors inner)" by auto
    from 3(1) [OF m 3(3)] show ?thesis by (force simp: a)
  qed
qed

lemma allBlocks_withAncestors:
  "c \<in> set (allBlocks bs) \<Longrightarrow> \<exists>anc. (anc, c) \<in> set (withAncestors bs)"
  using snd_withAncestors(1) [of bs, symmetric] by force

section \<open>Properties of the edit-mode propagator\<close>

text \<open>
  C1. Called with the mode \<open>'disabled'\<close>, \<open>setBlockEditMode\<close> calls \<open>setEditMode\<close> once
  for every block of the tree, in pre-order, each time with \<open>'disabled'\<close>; in the registry
  every block of the tree ends with the edit mode \<open>'disabled'\<close>. The classifier is
  arbitrary, so this holds whatever it answers.
\<close>

theorem C1_disabled_everywhere:
  "setBlockEditMode recordCall isOverridableBlock patternBlockName blocks (Some ''disabled'') [] =
     map (\<lambda>cid. (cid, ''disabled'')) (clientIds blocks) \<and>
   (\<forall>b \<in> set (allBlocks blocks).
      setBlockEditMode setBlockEditingMode isOverridableBlock patternBlockName blocks
        (Some ''disabled'') registry (clientId b) = Some ''disabled'')"
proof (intro conjI ballI)
  show "setBlockEditMode recordCall isOverridableBlock patternBlockName blocks (Some ''disabled'') [] =
     map (\<lambda>cid. (cid, ''disabled'')) (clientIds blocks)"
    by (simp add: calls_eq editModeAt_disabled clientIds_def snd_withAncestors(1) [symmetric]
          comp_def case_prod_unfold)
next
  fix b assume b: "b \<in> set (allBlocks blocks)"
  let ?kvs = "map (\<lambda>(anc, b). (clientId b, ''disabled'')) (withAncestors blocks)"
  have run: "setBlockEditMode setBlockEditingMode isOverridableBlock patternBlockName blocks
        (Some ''disabled'') registry = fold (\<lambda>(k, v) r. r(k \<mapsto> v)) ?kvs registry"
    by (simp add: setBlockEditMode_fold(1) fold_map comp_def case_prod_unfold
          setBlockEditingMode_fun editModeAt_disabled)
  from b obtain anc where "(anc, b) \<in> set (withAncestors blocks)"
    using allBlocks_withAncestors by blast
  then have "clientId b \<in> fst ` set ?kvs" by force
  moreover have "snd ` set ?kvs \<subseteq> {''disabled''}" by auto
  ultimately show "setBlockEditMode setBlockEditingMode isOverridableBlock patternBlockName blocks
        (Some ''disabled'') registry (clientId b) = Some ''disabled''"
    unfolding run by (rule fold_update_const)
qed

theorem C1_disabled_everywhere_witness:
  "setBlockEditMode recordCall attributes ''core/block''
     [Block ''a'' ''core/group'' False [Block ''b'' ''core/paragraph'' True []],
      Block ''p'' ''core/block'' True [Block ''c'' ''core/heading'' True []]]
     (Some ''disabled'') [] =
   [(''a'', ''disabled''), (''b'', ''disabled''), (''p'', ''disabled''), (''c'', ''disabled'')] \<and>
   setBlockEditMode setBlockEditingMode attributes ''core/block''
     [Block ''a'' ''core/group'' False [Block ''b'' ''core/paragraph'' True []],
      Block ''p'' ''core/block'' True [Block ''c'' ''core/heading'' True []]]
     (Some ''disabled'') Map.empty ''b'' = Some ''disabled''"
  using C1_disabled_everywhere [of attributes "''core/block''"
     "[Block ''a'' ''core/group'' False [Block ''b'' ''core/paragraph'' True []],
      Block ''p'' ''core/block'' True [Block ''c'' ''core/heading'' True []]]" Map.empty]
  by (simp add: clientIds_def)

text \<open>
  C2 as stated: with no mode supplied, every block that the classifier accepts is
  assigned \<open>'contentOnly'\<close>. This fails for an accepted block inside a nested pattern: the
  paragraph \<open>c\<close> below the pattern block \<open>p\<close> is accepted and is assigned \<open>'disabled'\<close>.
\<close>

theorem C2_counterexample:
  "attributes (Block ''c'' ''core/paragraph'' True []) \<and>
   Block ''c'' ''core/paragraph'' True [] \<in>
     set (allBlocks [Block ''p'' ''core/block'' False [Block ''c'' ''core/paragraph'' True []]]) \<and>
   setBlockEditMode setBlockEditingMode attributes ''core/block''
     [Block ''p'' ''core/block'' False [Block ''c'' ''core/paragraph'' True []]]
     None Map.empty ''c'' = Some ''disabled''"
  by (simp add: setBlockEditingMode_def js_or_def)

text \<open>
  C2, amended. In a tree whose client ids are pairwise distinct and with no mode
  supplied, a block that the classifier accepts and that has no ancestor of the pattern
  type is assigned \<open>'contentOnly'\<close>; every other block, that is every block the classifier
  rejects and every block below a nested pattern, is assigned \<open>'disabled'\<close>.
\<close>

theorem C2_classified_outside_nested_patterns:
  assumes "distinct (clientIds blocks)"
    and "(anc, b) \<in> set (withAncestors blocks)"
  shows "setBlockEditMode setBlockEditingMode isOverridableBlock patternBlockName blocks
           None registry (clientId b) =
         Some (if isOverridableBlock b \<and> \<not> belowPattern patternBlockName anc
               then ''contentOnly'' else ''disabled'')"
  using registry_after [OF assms, of isOverridableBlock patternBlockName None registry]
  by (simp only: editModeAt_None)

theorem C2_classified_outside_nested_patterns_witness:
  "setBlockEditMode setBlockEditingMode attributes ''core/block''
     [Block ''a'' ''core/paragraph'' True [], Block ''g'' ''core/group'' False [],
      Block ''p'' ''core/block'' False [Block ''c'' ''core/paragraph'' True []]]
     None Map.empty ''a'' = Some ''contentOnly'' \<and>
   setBlockEditMode setBlockEditingMode attributes ''core/block''
     [Block ''a'' ''core/paragraph'' True [], Block ''g'' ''core/group'' False [],
      Block ''p'' ''core/block'' False [Block ''c'' ''core/paragraph'' True []]]
     None Map.empty ''g'' = Some ''disabled'' \<and>
   setBlockEditMode setBlockEditingMode attributes ''core/block''
     [Block ''a'' ''core/paragraph'' True [], Block ''g'' ''core/group'' False [],
      Block ''p'' ''core/block'' False [Block ''c'' ''core/paragraph'' True []]]
     None Map.empty ''c'' = Some ''disabled''"
proof -
  let ?T = "[Block ''a'' ''core/paragraph'' True [], Block ''g'' ''core/group'' False [],
      Block ''p'' ''core/block'' False [Block ''c'' ''core/paragraph'' True []]]"
  have d: "distinct (clientIds ?T)" by (simp add: clientIds_def)
  have a: "([], Block ''a'' ''core/paragraph'' True []) \<in> set (withAncestors ?T)" by simp
  have g: "([], Block ''g'' ''core/group'' False []) \<in> set (withAncestors ?T)" by simp
  have c: "([Block ''p'' ''core/block'' False [Block ''c'' ''core/paragraph'' True []]],
            Block ''c'' ''core/paragraph'' True []) \<in> set (withAncestors ?T)" by simp
  show ?thesis
    using C2_classified_outside_nested_patterns [OF d a, of attributes "''core/block''" Map.empty]
      C2_classified_outside_nested_patterns [OF d g, of attributes "''core/block''" Map.empty]
      C2_classified_outside_nested_patterns [OF d c, of attributes "''core/block''" Map.empty]
    by (simp add: belowPattern_def)
qed

text \<open>
  C3 as stated: every block of the pattern type that the classifier accepts is assigned
  \<open>'contentOnly'\<close>. This fails when that block itself lies inside another nested pattern:
  \<open>q\<close> has the pattern type and is accepted, but it is a child of the pattern block \<open>p\<close>
  and is assigned \<open>'disabled'\<close>.
\<close>

theorem C3_counterexample:
  "name (Block ''q'' ''core/block'' True []) = ''core/block'' \<and>
   attributes (Block ''q'' ''core/block'' True []) \<and>
   Block ''q'' ''core/block'' True [] \<in>
     set (allBlocks [Block ''p'' ''core/block'' True [Block ''q'' ''core/block'' True []]]) \<and>
   setBlockEditMode setBlockEditingMode attributes ''core/block''
     [Block ''p'' ''core/block'' True [Block ''q'' ''core/block'' True []]]
     None Map.empty ''q'' = Some ''disabled''"
  by (simp add: setBlockEditingMode_def js_or_def)

text \<open>
  C3, amended. In a tree whose client ids are pairwise distinct and with no mode
  supplied, a block of the pattern type that the classifier accepts and that has no
  ancestor of the pattern type is itself assigned \<open>'contentOnly'\<close>, while every block
  below it (its children and their descendants) is assigned \<open>'disabled'\<close>, whatever the
  classifier answers for them.
\<close>

theorem C3_nested_pattern_contentOnly_children_disabled:
  assumes "distinct (clientIds blocks)"
    and "(anc, b) \<in> set (withAncestors blocks)"
    and "name b = patternBlockName"
    and "isOverridableBlock b"
    and "\<not> belowPattern patternBlockName anc"
  shows "setBlockEditMode setBlockEditingMode isOverridableBlock patternBlockName blocks
           None registry (clientId b) = Some ''contentOnly'' \<and>
         (\<forall>c \<in> set (allBlocks (innerBlocks b)).
            setBlockEditMode setBlockEditingMode isOverridableBlock patternBlockName blocks
              None registry (clientId c) = Some ''disabled'')"
proof (intro conjI ballI)
  show "setBlockEditMode setBlockEditingMode isOverridableBlock patternBlockName blocks
           None registry (clientId b) = Some ''contentOnly''"
    using registry_after [OF assms(1,2), of isOverridableBlock patternBlockName None registry]
      assms(4,5)
    by (simp only: editModeAt_None simp_thms if_True)
next
  fix c assume "c \<in> set (allBlocks (innerBlocks b))"
  then obtain anc' where "(anc', c) \<in> set (withAncestors (innerBlocks b))"
    using allBlocks_withAncestors by blast
  with assms(2) have c: "(anc @ b # anc', c) \<in> set (withAncestors blocks)"
    by (rule withAncestors_inner(1))
  have "belowPattern patternBlockName (anc @ b # anc')"
    using assms(3) by (simp add: belowPattern_def)
  then show "setBlockEditMode setBlockEditingMode isOverridableBlock patternBlockName blocks
              None registry (clientId c) = Some ''disabled''"
    using registry_after [OF assms(1) c, of isOverridableBlock patternBlockName None registry]
    by (simp only: editModeAt_None simp_thms if_False)
qed

theorem C3_nested_pattern_contentOnly_children_disabled_witness:
  "setBlockEditMode setBlockEditingMode attributes ''core/block''
     [Block ''g'' ''core/group'' False
        [Block ''p'' ''core/block'' True
           [Block ''c'' ''core/paragraph'' True [], Block ''d'' ''core/image'' False []]]]
     None Map.empty ''p'' = Some ''contentOnly'' \<and>
   setBlockEditMode setBlockEditingMode attributes ''core/block''
     [Block ''g'' ''core/group'' False
        [Block ''p'' ''core/block'' True
           [Block ''c'' ''core/paragraph'' True [], Block ''d'' ''core/image'' False []]]]
     None Map.empty ''c'' = Some ''disabled'' \<and>
   setBlockEditMode setBlockEditingMode attributes ''core/block''
     [Block ''g'' ''core/group'' False
        [Block ''p'' ''core/block'' True
           [Block ''c'' ''core/paragraph'' True [], Block ''d'' ''core/image'' False []]]]
     None Map.empty ''d'' = Some ''disabled''"
proof -
  let ?P = "Block ''p'' ''core/block'' True
           [Block ''c'' ''core/paragraph'' True [], Block ''d'' ''core/image'' False []]"
  let ?G = "Block ''g'' ''core/group'' False [?P]"
  have d: "distinct (clientIds [?G])" by (simp add: clientIds_def)
  have p: "([?G], ?P) \<in> set (withAncestors [?G])" by simp
  have n: "name ?P = ''core/block''" by simp
  have ov: "attributes ?P" by simp
  have nb: "\<not> belowPattern ''core/block'' [?G]" by (simp add: belowPattern_def)
  show ?thesis
    using C3_nested_pattern_contentOnly_children_disabled
      [where blocks = "[?G]" and anc = "[?G]" and b = ?P and isOverridableBlock = attributes
         and patternBlockName = "''core/block''" and registry = Map.empty, OF d p n ov nb]
    by simp
qed

text \<open>
  C7 as stated: a block that the classifier accepts is assigned \<open>'contentOnly'\<close> also when
  the caller supplies a mode. This fails: with the mode \<open>'disabled'\<close> supplied, the accepted
  paragraph \<open>a\<close> is assigned \<open>'disabled'\<close>.
\<close>

theorem C7_counterexample:
  "attributes (Block ''a'' ''core/paragraph'' True []) \<and>
   setBlockEditMode setBlockEditingMode attributes ''core/block''
     [Block ''a'' ''core/paragraph'' True []] (Some ''disabled'') Map.empty ''a'' =
   Some ''disabled''"
  by (simp add: setBlockEditingMode_def js_or_def)

text \<open>
  C7, amended. In a tree whose client ids are pairwise distinct, when the caller supplies
  a non-empty mode, every block with no ancestor of the pattern type is assigned the
  supplied mode and every block below a nested pattern is assigned \<open>'disabled'\<close>, whether
  or not the classifier accepts the block: the supplied mode takes precedence over the
  classifier, which is consulted only when no mode is supplied.
\<close>

theorem C7_supplied_mode_takes_precedence:
  assumes "distinct (clientIds blocks)"
    and "(anc, b) \<in> set (withAncestors blocks)"
    and "m \<noteq> []"
  shows "setBlockEditMode setBlockEditingMode isOverridableBlock patternBlockName blocks
           (Some m) registry (clientId b) =
         Some (if belowPattern patternBlockName anc then ''disabled'' else m)"
  using registry_after [OF assms(1,2), of isOverridableBlock patternBlockName "Some m" registry]
  by (simp only: editModeAt_Some [OF assms(3)])

theorem C7_supplied_mode_takes_precedence_witness:
  "setBlockEditMode setBlockEditingMode attributes ''core/block''
     [Block ''a'' ''core/paragraph'' True [],
      Block ''p'' ''core/block'' False [Block ''c'' ''core/paragraph'' True []]]
     (Some ''default'') Map.empty ''a'' = Some ''default'' \<and>
   setBlockEditMode setBlockEditingMode attributes ''core/block''
     [Block ''a'' ''core/paragraph'' True [],
      Block ''p'' ''core/block'' False [Block ''c'' ''core/paragraph'' True []]]
     (Some ''default'') Map.empty ''c'' = Some ''disabled''"
proof -
  let ?T = "[Block ''a'' ''core/paragraph'' True [],
      Block ''p'' ''core/block'' False [Block ''c'' ''core/paragraph'' True []]]"
  have d: "distinct (clientIds ?T)" by (simp add: clientIds_def)
  have a: "([], Block ''a'' ''core/paragraph'' True []) \<in> set (withAncestors ?T)" by simp
  have c: "([Block ''p'' ''core/block'' False [Block ''c'' ''core/paragraph'' True []]],
            Block ''c'' ''core/paragraph'' True []) \<in> set (withAncestors ?T)" by simp
  have m: "''default'' \<noteq> []" by simp
  show ?thesis
    using C7_supplied_mode_takes_precedence [OF d a m, of attributes "''core/block''" Map.empty]
      C7_supplied_mode_takes_precedence [OF d c m, of attributes "''core/block''" Map.empty]
    by (simp add: belowPattern_def)
qed

text \<open>
  C9. For the mode \<open>undefined\<close> or \<open>'disabled'\<close>, the calls that \<open>setBlockEditMode\<close> makes
  to \<open>setEditMode\<close> are, in order, one call per block of the tree (their client ids are
  the pre-order list of the tree's client ids, so there are as many calls as blocks), and
  every value written is \<open>'contentOnly'\<close> or \<open>'disabled'\<close>; in particular \<open>'default'\<close> is
  never written.
\<close>

theorem C9_one_write_per_block:
  assumes "mode = None \<or> mode = Some ''disabled''"
  shows "map fst (setBlockEditMode recordCall isOverridableBlock patternBlockName blocks mode [])
           = clientIds blocks \<and>
         length (setBlockEditMode recordCall isOverridableBlock patternBlockName blocks mode [])
           = length (allBlocks blocks) \<and>
         set (map snd (setBlockEditMode recordCall isOverridableBlock patternBlockName blocks mode []))
           \<subseteq> {''contentOnly'', ''disabled''}"
proof (intro conjI)
  show ids: "map fst (setBlockEditMode recordCall isOverridableBlock patternBlockName blocks mode [])
           = clientIds blocks"
    by (simp add: calls_eq clientIds_def snd_withAncestors(1) [symmetric] comp_def
          case_prod_unfold)
  from arg_cong [OF ids, of length]
  show "length (setBlockEditMode recordCall isOverridableBlock patternBlockName blocks mode [])
           = length (allBlocks blocks)"
    by (simp add: clientIds_def)
  have vals: "editModeAt isOverridableBlock patternBlockName mode anc b \<in> {''contentOnly'', ''disabled''}"
    for anc b
    using assms by (elim disjE) (simp_all add: editModeAt_None editModeAt_disabled)
  show "set (map snd (setBlockEditMode recordCall isOverridableBlock patternBlockName blocks mode []))
           \<subseteq> {''contentOnly'', ''disabled''}"
  proof
    fix v
    assume "v \<in> set (map snd (setBlockEditMode recordCall isOverridableBlock patternBlockName
                               blocks mode []))"
    then obtain anc b where "v = editModeAt isOverridableBlock patternBlockName mode anc b"
      by (auto simp: calls_eq)
    with vals show "v \<in> {''contentOnly'', ''disabled''}" by (simp only:)
  qed
qed

theorem C9_one_write_per_block_witness:
  "setBlockEditMode recordCall attributes ''core/block''
     [Block ''a'' ''core/paragraph'' True [],
      Block ''p'' ''core/block'' False [Block ''c'' ''core/paragraph'' True []]] None [] =
   [(''a'', ''contentOnly''), (''p'', ''disabled''), (''c'', ''disabled'')] \<and>
   map fst (setBlockEditMode recordCall attributes ''core/block''
     [Block ''a'' ''core/paragraph'' True [],
      Block ''p'' ''core/block'' False [Block ''c'' ''core/paragraph'' True []]] None []) =
   [''a'', ''p'', ''c'']"
  using C9_one_write_per_block [of None attributes "''core/block''"
     "[Block ''a'' ''core/paragraph'' True [],
      Block ''p'' ''core/block'' False [Block ''c'' ''core/paragraph'' True []]]"]
  by (simp add: clientIds_def recordCall_def js_or_def)

text \<open>
  C10. The effect calls \<open>setBlockEditMode\<close> on the pattern's inner blocks with the forced
  mode \<open>'disabled'\<close> exactly when the pattern block's own editing mode is \<open>'disabled'\<close> or no
  \<open>'core/pattern-overrides'\<close> source is registered, and with \<open>undefined\<close> exactly when the
  source exists and the pattern block is not disabled; the effect writes \<open>'contentOnly'\<close>
  for some block only in the latter case.
\<close>

theorem C10_forced_disabled_iff:
  "(syncMode editingMode getBlockBindingsSource = Some ''disabled'') =
     (editingMode = ''disabled'' \<or> getBlockBindingsSource ''core/pattern-overrides'' = None) \<and>
   (syncMode editingMode getBlockBindingsSource = None) =
     (editingMode \<noteq> ''disabled'' \<and> getBlockBindingsSource ''core/pattern-overrides'' \<noteq> None) \<and>
   syncEffect setEditMode isOverridableBlock patternBlockName editingMode
       getBlockBindingsSource innerBlocks' s =
     setBlockEditMode setEditMode isOverridableBlock patternBlockName innerBlocks'
       (if editingMode = ''disabled'' \<or> getBlockBindingsSource ''core/pattern-overrides'' = None
        then Some ''disabled'' else None) s \<and>
   ((cid, ''contentOnly'') \<in> set (syncEffect recordCall isOverridableBlock patternBlockName
        editingMode getBlockBindingsSource innerBlocks' []) \<longrightarrow>
      editingMode \<noteq> ''disabled'' \<and> getBlockBindingsSource ''core/pattern-overrides'' \<noteq> None)"
proof (intro conjI impI)
  show "(syncMode editingMode getBlockBindingsSource = Some ''disabled'') =
     (editingMode = ''disabled'' \<or> getBlockBindingsSource ''core/pattern-overrides'' = None)"
    by (simp add: syncMode_def hasPatternOverridesSource_def)
  show "(syncMode editingMode getBlockBindingsSource = None) =
     (editingMode \<noteq> ''disabled'' \<and> getBlockBindingsSource ''core/pattern-overrides'' \<noteq> None)"
    by (simp add: syncMode_def hasPatternOverridesSource_def)
  show "syncEffect setEditMode isOverridableBlock patternBlockName editingMode
       getBlockBindingsSource innerBlocks' s =
     setBlockEditMode setEditMode isOverridableBlock patternBlockName innerBlocks'
       (if editingMode = ''disabled'' \<or> getBlockBindingsSource ''core/pattern-overrides'' = None
        then Some ''disabled'' else None) s"
    by (simp add: syncEffect_def syncMode_def hasPatternOverridesSource_def)
next
  assume c: "(cid, ''contentOnly'') \<in> set (syncEffect recordCall isOverridableBlock
        patternBlockName editingMode getBlockBindingsSource innerBlocks' [])"
  have "syncMode editingMode getBlockBindingsSource \<noteq> Some ''disabled''"
  proof
    assume "syncMode editingMode getBlockBindingsSource = Some ''disabled''"
    with c show False
      by (auto simp: syncEffect_def calls_eq editModeAt_disabled)
  qed
  then show "editingMode \<noteq> ''disabled''"
    and "getBlockBindingsSource ''core/pattern-overrides'' \<noteq> None"
    by (auto simp: syncMode_def hasPatternOverridesSource_def split: if_splits)
qed

theorem C10_forced_disabled_iff_witness:
  "syncEffect recordCall attributes ''core/block'' ''default''
     [''core/pattern-overrides'' \<mapsto> ()]
     [Block ''a'' ''core/paragraph'' True [], Block ''g'' ''core/group'' False []] [] =
   [(''a'', ''contentOnly''), (''g'', ''disabled'')] \<and>
   syncEffect recordCall attributes ''core/block'' ''disabled''
     [''core/pattern-overrides'' \<mapsto> ()]
     [Block ''a'' ''core/paragraph'' True [], Block ''g'' ''core/group'' False []] [] =
   [(''a'', ''disabled''), (''g'', ''disabled'')] \<and>
   syncEffect recordCall attributes ''core/block'' ''default''
     (Map.empty :: string \<Rightarrow> unit option)
     [Block ''a'' ''core/paragraph'' True [], Block ''g'' ''core/group'' False []] [] =
   [(''a'', ''disabled''), (''g'', ''disabled'')]"
  using C10_forced_disabled_iff [of "''default''" "[''core/pattern-overrides'' \<mapsto> ()]"
      recordCall attributes "''core/block''"
      "[Block ''a'' ''core/paragraph'' True [], Block ''g'' ''core/group'' False []]" "[]" "''a''"]
    C10_forced_disabled_iff [of "''disabled''" "[''core/pattern-overrides'' \<mapsto> ()]"
      recordCall attributes "''core/block''"
      "[Block ''a'' ''core/paragraph'' True [], Block ''g'' ''core/group'' False []]" "[]" "''a''"]
    C10_forced_disabled_iff [of "''default''" "Map.empty :: string \<Rightarrow> unit option"
      recordCall attributes "''core/block''"
      "[Block ''a'' ''core/paragraph'' True [], Block ''g'' ''core/group'' False []]" "[]" "''a''"]
  by (simp add: recordCall_def js_or_def)

section \<open>Properties of the renderer and of the recursion guard\<close>

text \<open>
  C6. \<open>ReusableBlockEdit\<close> shows the placeholder with the spinner when the record has not
  resolved (whether or not a record is present), the warning that the block has been
  deleted or is unavailable when it has resolved and the record is absent, and the inner
  blocks when it has resolved and the record is present. The three results are pairwise
  different.
\<close>

theorem C6_three_outcomes:
  "(\<not> hasResolved \<longrightarrow>
      ReusableBlockEdit hasResolved record' innerBlocks' blocks = BlockDiv Placeholder_Spinner) \<and>
   (hasResolved \<and> record' = None \<longrightarrow>
      ReusableBlockEdit hasResolved record' innerBlocks' blocks =
        BlockDiv (Warning ''Block has been deleted or is unavailable.'')) \<and>
   (hasResolved \<and> record' \<noteq> None \<longrightarrow>
      ReusableBlockEdit hasResolved record' innerBlocks' blocks =
        InnerBlocksDiv (if innerBlocks' \<noteq> [] then innerBlocks' else blocks)) \<and>
   (BlockDiv Placeholder_Spinner :: 'a element) \<noteq>
      BlockDiv (Warning ''Block has been deleted or is unavailable.'') \<and>
   (BlockDiv Placeholder_Spinner :: 'a element) \<noteq>
      InnerBlocksDiv (if innerBlocks' \<noteq> [] then innerBlocks' else blocks) \<and>
   (BlockDiv (Warning ''Block has been deleted or is unavailable.'') :: 'a element) \<noteq>
      InnerBlocksDiv (if innerBlocks' \<noteq> [] then innerBlocks' else blocks)"
  by (auto simp: ReusableBlockEdit_def ReusableBlockEdit_children_def)

theorem C6_three_outcomes_witness:
  "ReusableBlockEdit False (None :: unit option) [] [Block ''a'' ''core/paragraph'' () []] =
     BlockDiv Placeholder_Spinner \<and>
   ReusableBlockEdit False (Some ()) [] [Block ''a'' ''core/paragraph'' () []] =
     BlockDiv Placeholder_Spinner \<and>
   ReusableBlockEdit True (None :: unit option) [] [Block ''a'' ''core/paragraph'' () []] =
     BlockDiv (Warning ''Block has been deleted or is unavailable.'') \<and>
   ReusableBlockEdit True (Some ()) [] [Block ''a'' ''core/paragraph'' () []] =
     InnerBlocksDiv [Block ''a'' ''core/paragraph'' () []]"
  using C6_three_outcomes [of False "None :: unit option" "[]" "[Block ''a'' ''core/paragraph'' () []]"]
    C6_three_outcomes [of False "Some ()" "[]" "[Block ''a'' ''core/paragraph'' () []]"]
    C6_three_outcomes [of True "None :: unit option" "[]" "[Block ''a'' ''core/paragraph'' () []]"]
    C6_three_outcomes [of True "Some ()" "[]" "[Block ''a'' ''core/paragraph'' () []]"]
  by simp

text \<open>
  C5. \<open>enter t\<close> returns true exactly when \<open>t\<close> is not on the path; it then appends
  \<open>t\<close>, and it leaves the path unchanged when it returns false. A second \<open>enter t\<close> with
  no \<open>exit\<close> in between returns false, and \<open>enter t\<close> after \<open>exit t\<close> returns true. So
  from a path on which \<open>t\<close> is not active, entering twice returns true then false, and
  enter, exit, enter returns true both times.
\<close>

theorem C5_enter_exit:
  "fst (enter t path) = (t \<notin> set path) \<and>
   \<not> fst (enter t (snd (enter t path))) \<and>
   fst (enter t (exit t (snd (enter t path)))) \<and>
   (t \<notin> set path \<longrightarrow> enter t path = (True, path @ [t]) \<and>
        set (snd (enter t path)) = insert t (set path)) \<and>
   (t \<in> set path \<longrightarrow> enter t path = (False, path)) \<and>
   (t \<notin> set path \<longrightarrow> fst (enter t path) \<and> \<not> fst (enter t (snd (enter t path)))) \<and>
   (t \<notin> set path \<longrightarrow>
      fst (enter t path) \<and> fst (enter t (exit t (snd (enter t path)))))"
  by (simp add: enter_def exit_def)

theorem C5_enter_exit_witness:
  "enter ''A'' [''B''] = (True, [''B'', ''A'']) \<and>
   enter ''A'' [''B'', ''A''] = (False, [''B'', ''A'']) \<and>
   fst (enter ''A'' (snd (enter ''A'' [''B'']))) = False \<and>
   fst (enter ''A'' (exit ''A'' (snd (enter ''A'' [''B''])))) = True"
  using C5_enter_exit [of "''A''" "[''B'']"] C5_enter_exit [of "''A''" "[''B'', ''A'']"]
  by (simp add: enter_def exit_def)

text \<open>
  C4. When the template \<open>t\<close> is already active on the path, the wrapper returns the
  element with the warning \<open>Block cannot be rendered inside itself.\<close>, whatever \<open>edit\<close>
  is: the template is not expanded, and the result is a returned element also when
  \<open>edit\<close> would throw, so the detection of a cycle is never a throw. That element is
  neither a \<open>div\<close> of inner blocks, nor the placeholder, nor the deletion warning. When
  \<open>t\<close> is not active, the wrapper yields what \<open>edit\<close> yields on the path that \<open>enter\<close>
  returns, which is the old path with \<open>t\<close> appended: \<open>t\<close> is active on it and so is every
  template that was active before; with \<open>ReusableBlockEdit\<close> on a resolved, present record
  as \<open>edit\<close> the result is the \<open>div\<close> of the inner blocks. Hence a template that contains
  itself, directly or through another template \<open>u\<close>, renders the warning at the inner
  occurrence.
\<close>

theorem C4_recursion_wrapper:
  "(useHasRecursion path t \<longrightarrow>
      ReusableBlockEditRecursionWrapper edit path t =
        Inr (BlockDiv (Warning ''Block cannot be rendered inside itself.''))) \<and>
   (useHasRecursion path t \<longrightarrow>
      ReusableBlockEditRecursionWrapper edit path t \<noteq> Inl e \<and>
      ReusableBlockEditRecursionWrapper edit path t \<noteq> Inr (InnerBlocksDiv bs) \<and>
      ReusableBlockEditRecursionWrapper edit path t \<noteq> Inr (BlockDiv Placeholder_Spinner) \<and>
      ReusableBlockEditRecursionWrapper edit path t \<noteq>
        Inr (BlockDiv (Warning ''Block has been deleted or is unavailable.''))) \<and>
   (\<not> useHasRecursion path t \<longrightarrow>
      ReusableBlockEditRecursionWrapper edit path t = edit (path @ [t]) t \<and>
      snd (enter t path) = path @ [t] \<and>
      useHasRecursion (path @ [t]) t \<and>
      (\<forall>u. useHasRecursion path u \<longrightarrow> useHasRecursion (path @ [t]) u)) \<and>
   (\<not> useHasRecursion path t \<longrightarrow>
      ReusableBlockEditRecursionWrapper
        (\<lambda>path' r. Inr (ReusableBlockEdit True (Some rec) innerBlocks' blocks)) path t =
      Inr (InnerBlocksDiv (if innerBlocks' \<noteq> [] then innerBlocks' else blocks))) \<and>
   (\<not> useHasRecursion path t \<longrightarrow>
      ReusableBlockEditRecursionWrapper
        (\<lambda>path' r. ReusableBlockEditRecursionWrapper edit path' r) path t =
      Inr (BlockDiv (Warning ''Block cannot be rendered inside itself.''))) \<and>
   (\<not> useHasRecursion path t \<longrightarrow>
      ReusableBlockEditRecursionWrapper
        (\<lambda>path' r. ReusableBlockEditRecursionWrapper
           (\<lambda>path'' r'. ReusableBlockEditRecursionWrapper edit path'' t) path' u) path t =
      Inr (BlockDiv (Warning ''Block cannot be rendered inside itself.'')))"
proof -
  have active: "ReusableBlockEditRecursionWrapper edit' path' t' =
      Inr (BlockDiv (Warning ''Block cannot be rendered inside itself.''))"
    if "useHasRecursion path' t'"
    for edit' :: "'a list \<Rightarrow> 'a \<Rightarrow> render_error + 'b element" and path' t'
    using that by (simp add: ReusableBlockEditRecursionWrapper_def RecursionWarning_def)
  have fresh: "ReusableBlockEditRecursionWrapper edit' path' t' = edit' (path' @ [t']) t'"
    if "\<not> useHasRecursion path' t'"
    for edit' :: "'a list \<Rightarrow> 'a \<Rightarrow> render_error + 'b element" and path' t'
    using that
    by (simp add: ReusableBlockEditRecursionWrapper_def RecursionProvider_def enter_def
          useHasRecursion_def isActive_def)
  have here: "useHasRecursion (path @ [t]) t"
    by (simp add: useHasRecursion_def isActive_def)
  have later: "useHasRecursion (p @ [u']) t" if "useHasRecursion p t" for p u'
    using that by (simp add: useHasRecursion_def isActive_def)
  show ?thesis
  proof (intro conjI impI allI)
    assume a: "useHasRecursion path t"
    show "ReusableBlockEditRecursionWrapper edit path t =
            Inr (BlockDiv (Warning ''Block cannot be rendered inside itself.''))"
      by (rule active [OF a])
    show "ReusableBlockEditRecursionWrapper edit path t \<noteq> Inl e"
      and "ReusableBlockEditRecursionWrapper edit path t \<noteq> Inr (InnerBlocksDiv bs)"
      and "ReusableBlockEditRecursionWrapper edit path t \<noteq> Inr (BlockDiv Placeholder_Spinner)"
      and "ReusableBlockEditRecursionWrapper edit path t \<noteq>
             Inr (BlockDiv (Warning ''Block has been deleted or is unavailable.''))"
      by (simp_all add: active [OF a])
  next
    assume n: "\<not> useHasRecursion path t"
    show "ReusableBlockEditRecursionWrapper edit path t = edit (path @ [t]) t"
      by (rule fresh [OF n])
    show "snd (enter t path) = path @ [t]"
      using n by (simp add: enter_def useHasRecursion_def isActive_def)
    show "useHasRecursion (path @ [t]) t" by (rule here)
    show "ReusableBlockEditRecursionWrapper
            (\<lambda>path' r. Inr (ReusableBlockEdit True (Some rec) innerBlocks' blocks)) path t =
          Inr (InnerBlocksDiv (if innerBlocks' \<noteq> [] then innerBlocks' else blocks))"
      using n
      by (simp add: ReusableBlockEditRecursionWrapper_def RecursionProvider_def
            ReusableBlockEdit_def ReusableBlockEdit_children_def)
    show "ReusableBlockEditRecursionWrapper
            (\<lambda>path' r. ReusableBlockEditRecursionWrapper edit path' r) path t =
          Inr (BlockDiv (Warning ''Block cannot be rendered inside itself.''))"
      by (simp only: fresh [OF n] active [OF here])
    show "ReusableBlockEditRecursionWrapper
            (\<lambda>path' r. ReusableBlockEditRecursionWrapper
               (\<lambda>path'' r'. ReusableBlockEditRecursionWrapper edit path'' t) path' u) path t =
          Inr (BlockDiv (Warning ''Block cannot be rendered inside itself.''))"
    proof (cases "useHasRecursion (path @ [t]) u")
      case True
      then show ?thesis by (simp only: fresh [OF n] active)
    next
      case False
      then show ?thesis by (simp only: fresh [OF n] fresh [OF False] active [OF later [OF here]])
    qed
  next
    fix u assume "\<not> useHasRecursion path t" and "useHasRecursion path u"
    then show "useHasRecursion (path @ [t]) u" by (simp add: useHasRecursion_def isActive_def)
  qed
qed

theorem C4_recursion_wrapper_witness:
  "ReusableBlockEditRecursionWrapper (\<lambda>path' r. Inl (Thrown ''render failed'')) [''A''] ''A'' =
     (Inr (BlockDiv (Warning ''Block cannot be rendered inside itself.''))
        :: render_error + unit element) \<and>
   ReusableBlockEditRecursionWrapper
     (\<lambda>path' r. Inr (ReusableBlockEdit True (Some ()) [] [Block ''a'' ''core/paragraph'' () []]))
     [''B''] ''A'' =
     Inr (InnerBlocksDiv [Block ''a'' ''core/paragraph'' () []]) \<and>
   ReusableBlockEditRecursionWrapper
     (\<lambda>path' r. ReusableBlockEditRecursionWrapper
        (\<lambda>path'' r'. Inr (InnerBlocksDiv [])) path' r)
     [] ''A'' =
     (Inr (BlockDiv (Warning ''Block cannot be rendered inside itself.''))
        :: render_error + unit element)"
proof -
  have a: "useHasRecursion [''A''] ''A''"
    by (simp add: useHasRecursion_def isActive_def)
  have b: "\<not> useHasRecursion [''B''] ''A''"
    by (simp add: useHasRecursion_def isActive_def)
  have n: "\<not> useHasRecursion [] ''A''"
    by (simp add: useHasRecursion_def isActive_def)
  note cycle = C4_recursion_wrapper
    [where path = "[''A'']" and t = "''A''"
       and edit = "\<lambda>path' r. Inl (Thrown ''render failed'') :: render_error + unit element",
     THEN conjunct1, rule_format, OF a]
  note expand = C4_recursion_wrapper
    [where path = "[''B'']" and t = "''A''" and rec = "()" and innerBlocks' = "[]"
       and blocks = "[Block ''a'' ''core/paragraph'' () []]",
     THEN conjunct2, THEN conjunct2, THEN conjunct2, THEN conjunct1, rule_format, OF b]
  note nested = C4_recursion_wrapper
    [where path = "[]" and t = "''A''"
       and edit = "\<lambda>path' r. Inr (InnerBlocksDiv []) :: render_error + unit element",
     THEN conjunct2, THEN conjunct2, THEN conjunct2, THEN conjunct2, THEN conjunct1,
     rule_format, OF n]
  from cycle expand nested show ?thesis by simp
qed

end
